theory Spec2Isabelle
  imports Main "HOL-Library.Word" "HOL-Library.Signed_Division"
begin

section \<open>Wallet data model (src/core/wallet.ts)\<close>

text \<open>
  The wallet's \<open>number\<close> amounts are satoshi counts and are read as integers; its
  \<open>bigint\<close> amounts are integers. An \<open>Error\<close> carries its message; the other
  errors are the built-in ones the code can raise.
\<close>

datatype error = Error string | RangeError | SyntaxError

record Status =
  confirmed :: bool
  block_height :: "nat option"
  block_hash :: "string option"
  block_time :: "nat option"

datatype VirtualState = Pending | Settled | Swept | Spent

record VirtualStatus =
  state :: VirtualState
  batchTxID :: "string option"
  batchExpiry :: "nat option"

record Outpoint =
  txid :: string
  vout :: nat

text \<open>\<open>Coin.value\<close> is the field \<open>coin_value\<close>.\<close>

record Coin = Outpoint +
  coin_value :: int
  status :: Status

record VirtualCoin = Coin +
  virtualStatus :: VirtualStatus

record OnchainBalance =
  onchain_confirmed :: int
  onchain_unconfirmed :: int
  onchain_total :: int

record OffchainBalance =
  swept :: int
  settled :: int
  pending :: int
  offchain_total :: int

record WalletBalance =
  onchain :: OnchainBalance
  offchain :: OffchainBalance
  total :: int

record SendBitcoinParams =
  address :: string
  amount :: int
  feeRate :: "int option"
  memo :: "string option"

text \<open>
  The wallet as far as the balance and the routing of a payment read it: what the
  on-chain provider answers to \<open>getCoins\<close>, what the Ark provider (when one is
  configured) answers to \<open>getVirtualCoins\<close>, and the off-chain address.
\<close>

record Wallet =
  onchainProvider :: "Coin list"
  arkProvider :: "VirtualCoin list option"
  offchainAddress :: "string option"

definition DUST_AMOUNT :: int where
  "DUST_AMOUNT = 546"

subsection \<open>getBalance\<close>

text \<open>\<open>xs.reduce((sum, coin) => sum + coin.value, 0)\<close>\<close>

definition reduce_value :: "'a Coin_scheme list \<Rightarrow> int" where
  "reduce_value xs = foldl (\<lambda>sum coin. sum + coin_value coin) 0 xs"

definition getCoins :: "Wallet \<Rightarrow> Coin list" where
  "getCoins w = onchainProvider w"

definition getVirtualCoins :: "Wallet \<Rightarrow> VirtualCoin list" where
  "getVirtualCoins w =
     (case arkProvider w of
        None \<Rightarrow> []
      | Some vtxos \<Rightarrow> (case offchainAddress w of None \<Rightarrow> [] | Some a \<Rightarrow> vtxos))"

definition getBalance :: "Wallet \<Rightarrow> WalletBalance" where
  "getBalance w =
     (let coins = getCoins w;
          onchainConfirmed = reduce_value (filter (\<lambda>coin. confirmed (status coin)) coins);
          onchainUnconfirmed = reduce_value (filter (\<lambda>coin. \<not> confirmed (status coin)) coins);
          onchainTotal = onchainConfirmed + onchainUnconfirmed;
          vtxos = (if arkProvider w \<noteq> None then Some (getVirtualCoins w) else None);
          offchainSettled = (case vtxos of None \<Rightarrow> 0
             | Some vs \<Rightarrow> reduce_value (filter (\<lambda>coin. state (virtualStatus coin) = Settled) vs));
          offchainPending = (case vtxos of None \<Rightarrow> 0
             | Some vs \<Rightarrow> reduce_value (filter (\<lambda>coin. state (virtualStatus coin) = Pending) vs));
          offchainSwept = (case vtxos of None \<Rightarrow> 0
             | Some vs \<Rightarrow> reduce_value (filter (\<lambda>coin. state (virtualStatus coin) = Swept) vs));
          offchainTotal = offchainSettled + offchainPending
      in \<lparr> onchain = \<lparr> onchain_confirmed = onchainConfirmed,
                       onchain_unconfirmed = onchainUnconfirmed,
                       onchain_total = onchainTotal \<rparr>,
           offchain = \<lparr> swept = offchainSwept, settled = offchainSettled,
                        pending = offchainPending, offchain_total = offchainTotal \<rparr>,
           total = onchainTotal + offchainTotal \<rparr>)"

subsection \<open>sendBitcoin\<close>

text \<open>
  \<open>sendBitcoin\<close> checks the amount and hands the payment to \<open>sendOffchain\<close> or to
  \<open>sendOnchain\<close>; the model returns which of the two is called.
\<close>

datatype Route = SendOffchain | SendOnchain

definition isOffchainSuitable :: "SendBitcoinParams \<Rightarrow> bool" where
  "isOffchainSuitable params = (amount params > DUST_AMOUNT)"

definition sendBitcoin :: "Wallet \<Rightarrow> SendBitcoinParams \<Rightarrow> error + Route" where
  "sendBitcoin w params =
     (if amount params \<le> 0 then Inl (Error ''Amount must be positive'')
      else if amount params < DUST_AMOUNT then Inl (Error ''Amount is below dust limit'')
      else if arkProvider w \<noteq> None \<and> isOffchainSuitable params then Inr SendOffchain
      else Inr SendOnchain)"

section \<open>Forfeit transaction builder (buildForfeitTx)\<close>

type_synonym bytes = "8 word list"

text \<open>
  The transaction of the signing library, as far as \<open>buildForfeitTx\<close> fills it: the
  constructor's options (a missing \<open>lockTime\<close> is 0), \<open>addInput\<close> and \<open>addOutput\<close>
  append. The fields \<open>txid\<close>, \<open>script\<close> and \<open>amount\<close> of an input or output carry a
  prefix here.
\<close>

datatype SigHash = SigHash_DEFAULT | SigHash_ALL | SigHash_NONE | SigHash_SINGLE

record WitnessUtxo =
  utxo_script :: bytes
  utxo_amount :: int

record TxInput =
  input_txid :: string
  index :: nat
  witnessUtxo :: WitnessUtxo
  sequence :: "32 word"
  sighashType :: "SigHash option"

record TxOutput =
  output_script :: bytes
  output_amount :: int

record Transaction =
  version :: nat
  lockTime :: nat
  inputs :: "TxInput list"
  outputs :: "TxOutput list"

definition new_Transaction :: "nat \<Rightarrow> nat option \<Rightarrow> Transaction" where
  "new_Transaction v lt =
     \<lparr> version = v, lockTime = (case lt of None \<Rightarrow> 0 | Some n \<Rightarrow> n), inputs = [], outputs = [] \<rparr>"

definition addInput :: "Transaction \<Rightarrow> TxInput \<Rightarrow> Transaction" where
  "addInput tx i = tx\<lparr>inputs := inputs tx @ [i]\<rparr>"

definition addOutput :: "Transaction \<Rightarrow> TxOutput \<Rightarrow> Transaction" where
  "addOutput tx out = tx\<lparr>outputs := outputs tx @ [out]\<rparr>"

text \<open>
  Modelled from the spec: the constant \<open>P2A\<close> of \<open>utils/anchor\<close> is not among the
  sources. The spec gives output 1 as the Pay-to-Anchor output
  \<open>(OP_1 0x02 0x4e73, 0 sats)\<close>.
\<close>

definition P2A :: TxOutput where
  "P2A = \<lparr> output_script = [0x51, 0x02, 0x4e, 0x73], output_amount = 0 \<rparr>"

text \<open>The truth value of an optional number: \<open>undefined\<close> and 0 are false.\<close>

definition truthy :: "nat option \<Rightarrow> bool" where
  "truthy n = (case n of None \<Rightarrow> False | Some k \<Rightarrow> k \<noteq> 0)"

text \<open>
  Modelled from the spec: the \<open>buildForfeitTx\<close> that \<open>wallet.ts\<close> calls, with a
  \<open>feeAmount\<close> and the scripts as \<open>serverScript\<close>, \<open>connectorScript\<close> and
  \<open>vtxoScript\<close>, is not among the sources; the \<open>buildForfeitTx\<close> that is has another
  parameter list and no fee. The spec (4.5) gives the builder's inputs, with an optional
  absolute locktime, and its result: a version-3 transaction with input 0 the connector,
  sequence \<open>0xffffffff\<close>, no sighash type; input 1 the vtxo, sequence \<open>0xfffffffe\<close>
  iff a locktime other than 0 is set (4.5 and 8), sighash type DEFAULT; output 0
  \<open>(serverScript, vtxoAmount + connectorAmount - feeAmount)\<close>; output 1 the
  Pay-to-Anchor output. The record has the property names of the call in \<open>wallet.ts\<close>.
\<close>

record ForfeitTxArgs =
  connectorInput :: Outpoint
  connectorAmount :: int
  feeAmount :: int
  serverScript :: bytes
  connectorScript :: bytes
  vtxoAmount :: int
  vtxoInput :: Outpoint
  vtxoScript :: bytes
  locktime :: "nat option"



text \<open>
  The \<open>buildForfeitTx\<close> of the sources and its \<open>ForfeitTxParams\<close>. The function
  destructures its argument, so a property the interface does not name is ignored: the
  argument is any extension of the record.
\<close>

record ForfeitTxParams =
  connectorInput :: Outpoint
  vtxoInput :: Outpoint
  vtxoAmount :: int
  connectorAmount :: int
  vtxoPkScript :: bytes
  connectorPkScript :: bytes
  serverPkScript :: bytes
  txLocktime :: "nat option"

definition buildForfeitTx :: "'a ForfeitTxParams_scheme \<Rightarrow> Transaction" where
  "buildForfeitTx p =
     (let tx0 = new_Transaction 3 (txLocktime p);
          tx1 = addInput tx0
                 \<lparr> input_txid = txid (connectorInput p), index = vout (connectorInput p),
                   witnessUtxo = \<lparr> utxo_script = connectorPkScript p, utxo_amount = connectorAmount p \<rparr>,
                   sequence = 0xffffffff, sighashType = None \<rparr>;
          tx2 = addInput tx1
                 \<lparr> input_txid = txid (vtxoInput p), index = vout (vtxoInput p),
                   witnessUtxo = \<lparr> utxo_script = vtxoPkScript p, utxo_amount = vtxoAmount p \<rparr>,
                   sequence = (if truthy (txLocktime p) then 0xfffffffe else 0xffffffff),
                   sighashType = Some SigHash_DEFAULT \<rparr>;
          amount = vtxoAmount p + connectorAmount p;
          tx3 = addOutput tx2 \<lparr> output_script = serverPkScript p, output_amount = amount \<rparr>
      in addOutput tx3 P2A)"

section \<open>Settlement engine (Wallet.settle)\<close>

text \<open>
  \<open>SettlementEventType\<close> as \<open>providers/ark\<close> declares it, and the events by their
  tag. \<open>settle\<close> reads an event's type, the \<open>reason\<close> of a \<open>Failed\<close> event and the
  \<open>roundTxid\<close> of a \<open>Finalized\<close> one; everything else an event carries is the
  payload \<open>'p\<close>, which only the handlers read. Every event starts with its \<open>id\<close>.
\<close>

datatype SettlementEventType =
    Finalization | Finalized | Failed | SigningStart | SigningNoncesGenerated
  | BatchStarted | BatchTree | BatchTreeSignature

datatype 'p SettlementEvent =
    FinalizationEvent string 'p
  | FinalizedEvent string string
  | FailedEvent string string
  | SigningStartEvent string 'p
  | SigningNoncesGeneratedEvent string 'p
  | BatchStartedEvent string 'p
  | BatchTreeEvent string 'p
  | BatchTreeSignatureEvent string 'p

fun event_type :: "'p SettlementEvent \<Rightarrow> SettlementEventType" where
  "event_type (FinalizationEvent i p) = Finalization"
| "event_type (FinalizedEvent i t) = Finalized"
| "event_type (FailedEvent i r) = Failed"
| "event_type (SigningStartEvent i p) = SigningStart"
| "event_type (SigningNoncesGeneratedEvent i p) = SigningNoncesGenerated"
| "event_type (BatchStartedEvent i p) = BatchStarted"
| "event_type (BatchTreeEvent i p) = BatchTree"
| "event_type (BatchTreeSignatureEvent i p) = BatchTreeSignature"

text \<open>
  The three handlers validate trees, sign and call the provider; the code they call
  is outside \<open>wallet.ts\<close>. They are parameters here: each returns or throws.
  \<open>handleSettlementSigningEvent\<close> returns the signing session \<open>'s\<close>.
\<close>

record ('p, 's) SettleHandlers =
  handleSettlementSigningEvent :: "'p SettlementEvent \<Rightarrow> error + 's"
  handleSettlementSigningNoncesGeneratedEvent :: "'p SettlementEvent \<Rightarrow> 's \<Rightarrow> error + unit"
  handleSettlementFinalizationEvent :: "'p SettlementEvent \<Rightarrow> error + unit"

text \<open>
  The local variables of \<open>settle\<close>: \<open>step\<close>, \<open>pingRunning\<close> (the 1000 ms interval is
  scheduled exactly while it is true; the pings themselves are taken to succeed) and
  \<open>signingSession\<close>. Two logs are added for the statements: the handlers called so
  far, and the events handed to \<open>eventCallback\<close>.
\<close>

record ('p, 's) SettleState =
  step :: "SettlementEventType option"
  pingRunning :: bool
  signingSession :: "'s option"
  handled :: "SettlementEventType list"
  callbackLog :: "'p SettlementEvent list"

datatype ('p, 's) Outcome =
    Continue "('p, 's) SettleState"
  | Return string "('p, 's) SettleState"
  | Throw error "('p, 's) SettleState"

definition stopPing :: "('p, 's) SettleState \<Rightarrow> ('p, 's) SettleState" where
  "stopPing st = (if pingRunning st then st\<lparr>pingRunning := False\<rparr> else st)"

text \<open>\<open>if (eventCallback) eventCallback(event)\<close>; \<open>cb\<close> says whether a callback was given.\<close>

definition notify :: "bool \<Rightarrow> 'p SettlementEvent \<Rightarrow> ('p, 's) SettleState \<Rightarrow> ('p, 's) SettleState" where
  "notify cb ev st = (if cb then st\<lparr>callbackLog := callbackLog st @ [ev]\<rparr> else st)"

definition called :: "SettlementEventType \<Rightarrow> ('p, 's) SettleState \<Rightarrow> ('p, 's) SettleState" where
  "called t st = st\<lparr>handled := handled st @ [t]\<rparr>"

text \<open>
  The \<open>switch\<close> of the loop body and the assignment \<open>step = event.type\<close> after it.
  \<open>continue\<close> is \<open>Continue\<close> with the state as it was; an event type without a
  \<open>case\<close> falls through to the assignment.
\<close>

fun settle_switch ::
  "('p, 's) SettleHandlers \<Rightarrow> ('p, 's) SettleState \<Rightarrow> 'p SettlementEvent \<Rightarrow> ('p, 's) Outcome" where
  "settle_switch h st (FailedEvent i reason) =
     (if step st = None then Continue st
      else Throw (Error reason) (stopPing st))"
| "settle_switch h st (SigningStartEvent i p) =
     (if step st \<noteq> None then Continue st
      else (let st1 = called SigningStart (stopPing st) in
            case handleSettlementSigningEvent h (SigningStartEvent i p) of
              Inl e \<Rightarrow> Throw e st1
            | Inr session \<Rightarrow> Continue (st1\<lparr>signingSession := Some session, step := Some SigningStart\<rparr>)))"
| "settle_switch h st (SigningNoncesGeneratedEvent i p) =
     (if step st \<noteq> Some SigningStart then Continue st
      else (let st1 = stopPing st in
            case signingSession st1 of
              None \<Rightarrow> Throw (Error ''Signing session not found'') st1
            | Some session \<Rightarrow>
                (case handleSettlementSigningNoncesGeneratedEvent h (SigningNoncesGeneratedEvent i p) session of
                   Inl e \<Rightarrow> Throw e (called SigningNoncesGenerated st1)
                 | Inr u \<Rightarrow> Continue ((called SigningNoncesGenerated st1)\<lparr>step := Some SigningNoncesGenerated\<rparr>))))"
| "settle_switch h st (FinalizationEvent i p) =
     (if step st \<noteq> Some SigningNoncesGenerated then Continue st
      else (let st1 = called Finalization (stopPing st) in
            case handleSettlementFinalizationEvent h (FinalizationEvent i p) of
              Inl e \<Rightarrow> Throw e st1
            | Inr u \<Rightarrow> Continue (st1\<lparr>step := Some Finalization\<rparr>)))"
| "settle_switch h st (FinalizedEvent i roundTxid) =
     (if step st \<noteq> Some Finalization then Continue st
      else Return roundTxid st)"
| "settle_switch h st ev = Continue (st\<lparr>step := Some (event_type ev)\<rparr>)"

definition settle_body ::
  "('p, 's) SettleHandlers \<Rightarrow> bool \<Rightarrow> ('p, 's) SettleState \<Rightarrow> 'p SettlementEvent \<Rightarrow> ('p, 's) Outcome" where
  "settle_body h cb st ev = settle_switch h (notify cb ev st) ev"

text \<open>
  \<open>for await (const event of settlementStream)\<close>. The stream is the list of what it
  yields: an event, or an error it throws (\<open>Inl\<close>); the end of the list is the end of
  the stream, after which \<open>settle\<close> throws \<open>Settlement failed\<close>. The result is what
  \<open>settle\<close> returns or throws, with the state it leaves.
\<close>

fun settle_loop ::
  "('p, 's) SettleHandlers \<Rightarrow> bool \<Rightarrow> ('p, 's) SettleState \<Rightarrow> (error + 'p SettlementEvent) list
     \<Rightarrow> (error + string) \<times> ('p, 's) SettleState" where
  "settle_loop h cb st [] = (Inl (Error ''Settlement failed''), st)"
| "settle_loop h cb st (Inl e # stream) = (Inl e, st)"
| "settle_loop h cb st (Inr ev # stream) =
     (case settle_body h cb st ev of
        Continue st' \<Rightarrow> settle_loop h cb st' stream
      | Return roundTxid st' \<Rightarrow> (Inr roundTxid, st')
      | Throw e st' \<Rightarrow> (Inl e, st'))"

text \<open>
  What surrounds the loop. \<open>arkConfigured\<close>: whether the wallet has an Ark provider;
  \<open>settleParams\<close>: the parameters given, or computed from the wallet's coins when none are
  (which can throw); then what the provider answers to the calls \<open>settle\<close> makes.
  \<open>getInfo\<close> stands for the call and the derivation of the sweep script from its
  answer.
\<close>

record ('p, 's) SettleEnv =
  arkConfigured :: bool
  settleParams :: "error + unit"
  registerInputsForNextRound :: "error + string"
  registerOutputsForNextRound :: "error + unit"
  getInfo :: "error + unit"
  getEventStream :: "(error + 'p SettlementEvent) list"
  handlers :: "('p, 's) SettleHandlers"

definition initial_state :: "('p, 's) SettleState" where
  "initial_state = \<lparr> step = None, pingRunning = False, signingSession = None, handled = [], callbackLog = [] \<rparr>"

definition settle :: "('p, 's) SettleEnv \<Rightarrow> bool \<Rightarrow> (error + string) \<times> ('p, 's) SettleState" where
  "settle env cb =
     (if \<not> arkConfigured env then (Inl (Error ''Ark provider not configured''), initial_state)
      else case settleParams env of Inl e \<Rightarrow> (Inl e, initial_state) | Inr u \<Rightarrow>
        (case registerInputsForNextRound env of Inl e \<Rightarrow> (Inl e, initial_state) | Inr requestId \<Rightarrow>
          (case registerOutputsForNextRound env of Inl e \<Rightarrow> (Inl e, initial_state) | Inr u \<Rightarrow>
             (let st = initial_state\<lparr>pingRunning := True\<rparr> in
              case getInfo env of Inl e \<Rightarrow> (Inl e, st) | Inr u \<Rightarrow>
                settle_loop (handlers env) cb st (getEventStream env)))))"

text \<open>The order of the events of one settlement: the step that must precede each.\<close>

fun preceding_step :: "SettlementEventType \<Rightarrow> SettlementEventType option" where
  "preceding_step SigningNoncesGenerated = Some SigningStart"
| "preceding_step Finalization = Some SigningNoncesGenerated"
| "preceding_step Finalized = Some Finalization"
| "preceding_step t = None"

definition ordered_type :: "SettlementEventType \<Rightarrow> bool" where
  "ordered_type t = (t = SigningStart \<or> t = SigningNoncesGenerated \<or> t = Finalization \<or> t = Finalized)"

text \<open>A provider that answers every call, and handlers that succeed, on unit payloads.\<close>

definition ok_handlers :: "(unit, unit) SettleHandlers" where
  "ok_handlers = \<lparr> handleSettlementSigningEvent = (\<lambda>ev. Inr ()),
                   handleSettlementSigningNoncesGeneratedEvent = (\<lambda>ev s. Inr ()),
                   handleSettlementFinalizationEvent = (\<lambda>ev. Inr ()) \<rparr>"

definition ok_env :: "(error + unit SettlementEvent) list \<Rightarrow> (unit, unit) SettleEnv" where
  "ok_env stream = \<lparr> arkConfigured = True, settleParams = Inr (), registerInputsForNextRound = Inr ''request'',
                     registerOutputsForNextRound = Inr (), getInfo = Inr (),
                     getEventStream = stream, handlers = ok_handlers \<rparr>"

text \<open>
  What holds of the state before every event of a run: the handlers called so far are
  those the step stands for, and the ping has been stopped once a handler has run.
\<close>

definition step_inv :: "('p, 's) SettleState \<Rightarrow> bool" where
  "step_inv st =
     (case step st of
        None \<Rightarrow> handled st = []
      | Some SigningStart \<Rightarrow> handled st = [SigningStart] \<and> \<not> pingRunning st
      | Some SigningNoncesGenerated \<Rightarrow>
          handled st = [SigningStart, SigningNoncesGenerated] \<and> \<not> pingRunning st
      | Some Finalization \<Rightarrow>
          handled st = [SigningStart, SigningNoncesGenerated, Finalization] \<and> \<not> pingRunning st
      | Some t \<Rightarrow> True)"

section \<open>Nonce and signature matrices on the wire (encodeMatrix, decodeMatrix)\<close>

text \<open>
  A \<open>Uint8Array\<close> is a list of bytes, and the \<open>ArrayBuffer\<close> that \<open>encodeMatrix\<close>
  fills is one too, zero at first. The \<open>DataView\<close> and typed-array accesses throw a
  \<open>RangeError\<close> outside the buffer. \<open>setUint32\<close> stores its value modulo
  \<open>2 ^ 32\<close>, low byte first.
\<close>

definition u32le :: "nat \<Rightarrow> bytes" where
  "u32le n = [word_of_nat n, word_of_nat (n div 256), word_of_nat (n div 65536),
              word_of_nat (n div 16777216)]"

definition write_bytes :: "bytes \<Rightarrow> nat \<Rightarrow> bytes \<Rightarrow> error + bytes" where
  "write_bytes buffer offset bs =
     (if offset + length bs \<le> length buffer
      then Inr (take offset buffer @ bs @ drop (offset + length bs) buffer)
      else Inl RangeError)"

definition setUint32 :: "bytes \<Rightarrow> nat \<Rightarrow> nat \<Rightarrow> error + bytes" where
  "setUint32 buffer offset v = write_bytes buffer offset (u32le v)"

definition setInt8 :: "bytes \<Rightarrow> nat \<Rightarrow> 8 word \<Rightarrow> error + bytes" where
  "setInt8 buffer offset v = write_bytes buffer offset [v]"

definition set_at :: "bytes \<Rightarrow> bytes \<Rightarrow> nat \<Rightarrow> error + bytes" where
  "set_at buffer cell offset = write_bytes buffer offset cell"

definition read_bytes :: "bytes \<Rightarrow> nat \<Rightarrow> nat \<Rightarrow> error + bytes" where
  "read_bytes buffer offset n =
     (if offset + n \<le> length buffer then Inr (take n (drop offset buffer)) else Inl RangeError)"

definition getUint32 :: "bytes \<Rightarrow> nat \<Rightarrow> error + nat" where
  "getUint32 buffer offset =
     (case read_bytes buffer offset 4 of
        Inl e \<Rightarrow> Inl e
      | Inr bs \<Rightarrow> Inr (unat (bs ! 0) + 256 * unat (bs ! 1) + 65536 * unat (bs ! 2)
                        + 16777216 * unat (bs ! 3)))"

definition getUint8 :: "bytes \<Rightarrow> nat \<Rightarrow> error + 8 word" where
  "getUint8 buffer offset =
     (case read_bytes buffer offset 1 of Inl e \<Rightarrow> Inl e | Inr bs \<Rightarrow> Inr (bs ! 0))"

subsection \<open>encodeMatrix\<close>

definition totalSize :: "bytes list list \<Rightarrow> nat" where
  "totalSize matrix =
     foldl (\<lambda>total row. foldl (\<lambda>total cell. total + 1 + length cell) (total + 4) row) 4 matrix"

text \<open>The inner loop over the cells of a row; the state is the buffer and the offset.\<close>

fun encode_cells :: "bytes \<times> nat \<Rightarrow> bytes list \<Rightarrow> error + bytes \<times> nat" where
  "encode_cells (buffer, offset) [] = Inr (buffer, offset)"
| "encode_cells (buffer, offset) (cell # row) =
     (let notNil = (length cell > 0) in
      case setInt8 buffer offset (if notNil then 1 else 0) of
        Inl e \<Rightarrow> Inl e
      | Inr buffer1 \<Rightarrow>
          if \<not> notNil then encode_cells (buffer1, offset + 1) row
          else (case set_at buffer1 cell (offset + 1) of
                  Inl e \<Rightarrow> Inl e
                | Inr buffer2 \<Rightarrow> encode_cells (buffer2, offset + 1 + length cell) row))"

fun encode_rows :: "bytes \<times> nat \<Rightarrow> bytes list list \<Rightarrow> error + bytes \<times> nat" where
  "encode_rows (buffer, offset) [] = Inr (buffer, offset)"
| "encode_rows (buffer, offset) (row # matrix) =
     (case setUint32 buffer offset (length row) of
        Inl e \<Rightarrow> Inl e
      | Inr buffer1 \<Rightarrow>
          (case encode_cells (buffer1, offset + 4) row of
             Inl e \<Rightarrow> Inl e
           | Inr st \<Rightarrow> encode_rows st matrix))"

definition encodeMatrix :: "bytes list list \<Rightarrow> error + bytes" where
  "encodeMatrix matrix =
     (let buffer = replicate (totalSize matrix) 0 in
      case setUint32 buffer 0 (length matrix) of
        Inl e \<Rightarrow> Inl e
      | Inr buffer1 \<Rightarrow>
          (case encode_rows (buffer1, 4) matrix of
             Inl e \<Rightarrow> Inl e
           | Inr (buffer2, offset) \<Rightarrow> Inr buffer2))"

subsection \<open>decodeMatrix\<close>

text \<open>
  The loops count up to \<open>rowLength\<close> and \<open>numRows\<close>; here the argument is the number
  of cells or rows still to read, and the result is what the loop pushes, in order,
  with the offset it ends at. The array decoded is its whole buffer.
\<close>

fun decode_cells :: "bytes \<Rightarrow> nat \<Rightarrow> nat \<Rightarrow> nat \<Rightarrow> error + bytes list \<times> nat" where
  "decode_cells matrix cellLength 0 offset = Inr ([], offset)"
| "decode_cells matrix cellLength (Suc j) offset =
     (case getUint8 matrix offset of
        Inl e \<Rightarrow> Inl e
      | Inr flag \<Rightarrow>
          if flag = 1
          then (case read_bytes matrix (offset + 1) cellLength of
                  Inl e \<Rightarrow> Inl e
                | Inr cell \<Rightarrow>
                    (case decode_cells matrix cellLength j (offset + 1 + cellLength) of
                       Inl e \<Rightarrow> Inl e
                     | Inr (row, offset') \<Rightarrow> Inr (cell # row, offset')))
          else (case decode_cells matrix cellLength j (offset + 1) of
                  Inl e \<Rightarrow> Inl e
                | Inr (row, offset') \<Rightarrow> Inr ([] # row, offset')))"

fun decode_rows :: "bytes \<Rightarrow> nat \<Rightarrow> nat \<Rightarrow> nat \<Rightarrow> error + bytes list list \<times> nat" where
  "decode_rows matrix cellLength 0 offset = Inr ([], offset)"
| "decode_rows matrix cellLength (Suc i) offset =
     (case getUint32 matrix offset of
        Inl e \<Rightarrow> Inl e
      | Inr rowLength \<Rightarrow>
          (case decode_cells matrix cellLength rowLength (offset + 4) of
             Inl e \<Rightarrow> Inl e
           | Inr (row, offset1) \<Rightarrow>
               (case decode_rows matrix cellLength i offset1 of
                  Inl e \<Rightarrow> Inl e
                | Inr (result, offset2) \<Rightarrow> Inr (row # result, offset2))))"

definition decodeMatrix :: "bytes \<Rightarrow> nat \<Rightarrow> error + bytes list list" where
  "decodeMatrix matrix cellLength =
     (case getUint32 matrix 0 of
        Inl e \<Rightarrow> Inl e
      | Inr numRows \<Rightarrow>
          (case decode_rows matrix cellLength numRows 4 of
             Inl e \<Rightarrow> Inl e
           | Inr (result, offset) \<Rightarrow> Inr result))"

subsection \<open>The wire format in the spec's words\<close>

text \<open>
  Little-endian \<open>u32\<close> row count, then per row a \<open>u32\<close> length and its cells, each a
  presence byte (1 iff the cell is not empty) followed by the cell's bytes when present.
\<close>

definition wire_cell :: "bytes \<Rightarrow> bytes" where
  "wire_cell cell = (if cell = [] then [0] else 1 # cell)"

definition wire_row :: "bytes list \<Rightarrow> bytes" where
  "wire_row row = u32le (length row) @ concat (map wire_cell row)"

definition wire_matrix :: "bytes list list \<Rightarrow> bytes" where
  "wire_matrix matrix = u32le (length matrix) @ concat (map wire_row matrix)"

text \<open>Every cell is empty or has exactly \<open>cellLength\<close> bytes.\<close>

definition cells_of_length :: "nat \<Rightarrow> bytes list list \<Rightarrow> bool" where
  "cells_of_length cellLength matrix =
     list_all (list_all (\<lambda>cell. cell = [] \<or> length cell = cellLength)) matrix"

section \<open>Event parsing (parseSettlementEvent of the REST provider)\<close>

subsection \<open>BigInt\<close>

text \<open>
  \<open>BigInt(string)\<close>: white space around the literal is dropped; the empty string is
  0; a literal is decimal digits with an optional sign, or unsigned digits after
  \<open>0x\<close>, \<open>0o\<close> or \<open>0b\<close>; anything else is a \<open>SyntaxError\<close>. The white space is the
  ASCII one. \<open>/\<close> on BigInts truncates towards zero and throws a \<open>RangeError\<close> on a
  zero divisor. \<open>toString10\<close> is \<open>toString(10)\<close> on a BigInt.
\<close>

definition is_space :: "char \<Rightarrow> bool" where
  "is_space c = (of_char c \<in> {9, 10, 11, 12, 13, 32 :: nat})"

definition trim :: "string \<Rightarrow> string" where
  "trim s = rev (dropWhile is_space (rev (dropWhile is_space s)))"

definition digit_value :: "char \<Rightarrow> nat option" where
  "digit_value c =
     (let k = (of_char c :: nat) in
      if 48 \<le> k \<and> k \<le> 57 then Some (k - 48)
      else if 97 \<le> k \<and> k \<le> 102 then Some (k - 87)
      else if 65 \<le> k \<and> k \<le> 70 then Some (k - 55)
      else None)"

fun parse_digits :: "nat \<Rightarrow> nat \<Rightarrow> string \<Rightarrow> nat option" where
  "parse_digits radix acc [] = Some acc"
| "parse_digits radix acc (c # cs) =
     (case digit_value c of
        None \<Rightarrow> None
      | Some d \<Rightarrow> if d < radix then parse_digits radix (acc * radix + d) cs else None)"

definition parse_radix :: "nat \<Rightarrow> string \<Rightarrow> error + int" where
  "parse_radix radix ds =
     (if ds = [] then Inl SyntaxError
      else case parse_digits radix 0 ds of None \<Rightarrow> Inl SyntaxError | Some n \<Rightarrow> Inr (int n))"

definition BigInt :: "string \<Rightarrow> error + int" where
  "BigInt str =
     (let s = trim str in
      if s = [] then Inr 0
      else if take 2 s = ''0x'' \<or> take 2 s = ''0X'' then parse_radix 16 (drop 2 s)
      else if take 2 s = ''0o'' \<or> take 2 s = ''0O'' then parse_radix 8 (drop 2 s)
      else if take 2 s = ''0b'' \<or> take 2 s = ''0B'' then parse_radix 2 (drop 2 s)
      else if hd s = CHR ''-'' then map_sum id uminus (parse_radix 10 (tl s))
      else if hd s = CHR ''+'' then parse_radix 10 (tl s)
      else parse_radix 10 s)"

definition bigint_div :: "int \<Rightarrow> int \<Rightarrow> error + int" where
  "bigint_div a b = (if b = 0 then Inl RangeError else Inr (a sdiv b))"

text \<open>The decimal digits, of which \<open>toString10\<close> makes its strings.\<close>

definition is_digit :: "char \<Rightarrow> bool" where
  "is_digit c = (48 \<le> (of_char c :: nat) \<and> (of_char c :: nat) \<le> 57)"

function dec_digits :: "nat \<Rightarrow> string" where
  "dec_digits n =
     (if n < 10 then [char_of (48 + n)] else dec_digits (n div 10) @ [char_of (48 + n mod 10)])"
  by pat_completeness auto
termination
  by (relation "measure id") auto

declare dec_digits.simps [simp del]

definition toString10 :: "int \<Rightarrow> string" where
  "toString10 k = (if k < 0 then CHR ''-'' # dec_digits (nat (- k)) else dec_digits (nat k))"

subsection \<open>Raw events and parsed events\<close>

text \<open>
  The \<open>ProtoTypes\<close> of the provider; a \<open>Tree\<close> is the list of its levels, a level the
  list of its nodes. The field \<open>id\<close> of every raw event carries a prefix, and so do
  the fields of a raw event that a parsed event has too.
\<close>

record ProtoNode =
  node_txid :: string
  node_tx :: string
  parentTxid :: string

type_synonym ProtoTree = "ProtoNode list list"

record RoundFailed =
  failed_id :: string
  failed_reason :: string

record RoundFinalizationEvent =
  fin_id :: string
  fin_roundTx :: string
  fin_vtxoTree :: ProtoTree
  fin_connectors :: "string list"
  fin_minRelayFeeRate :: string

record RoundFinalizedEvent =
  finalized_id :: string
  finalized_roundTxid :: string

record RoundSigningEvent =
  signing_id :: string
  cosignersPubkeys :: "string list"
  signing_unsignedVtxoTree :: ProtoTree
  unsignedRoundTx :: string

record RoundSigningNoncesGeneratedEvent =
  nonces_id :: string
  nonces_treeNonces :: string

record EventData =
  roundFailed :: "RoundFailed option"
  roundFinalization :: "RoundFinalizationEvent option"
  roundFinalized :: "RoundFinalizedEvent option"
  roundSigning :: "RoundSigningEvent option"
  roundSigningNoncesGenerated :: "RoundSigningNoncesGeneratedEvent option"

text \<open>A \<open>VtxoTree\<close> is the list of levels its constructor is given.\<close>

record TreeNode = ProtoNode +
  leaf :: bool

type_synonym VtxoTree = "TreeNode list list"

definition toVtxoTree :: "ProtoTree \<Rightarrow> VtxoTree" where
  "toVtxoTree t =
     (let parentTxids = set (filter (\<lambda>p. p \<noteq> []) (map parentTxid (concat t)))
      in map (map (\<lambda>node. \<lparr> node_txid = node_txid node, node_tx = node_tx node,
                               parentTxid = parentTxid node,
                               leaf = (node_txid node \<notin> parentTxids) \<rparr>)) t)"

text \<open>What a parsed event carries besides its type and id, as the engine's payload.\<close>

datatype EventPayload =
    FinalizationPayload (roundTx: string) (vtxoTree: VtxoTree) (connectors: "string list")
      (minRelayFeeRate: int)
  | SigningStartPayload (cosignersPublicKeys: "string list") (unsignedVtxoTree: VtxoTree)
      (unsignedSettlementTx: string)
  | SigningNoncesGeneratedPayload (treeNonces: string)

definition parseSettlementEvent :: "EventData \<Rightarrow> error + EventPayload SettlementEvent option" where
  "parseSettlementEvent data =
     (case roundFinalization data of
        Some f \<Rightarrow>
          (case BigInt (fin_minRelayFeeRate f) of
             Inl e \<Rightarrow> Inl e
           | Inr rate \<Rightarrow>
               (case bigint_div rate 1000 of
                  Inl e \<Rightarrow> Inl e
                | Inr perVbyte \<Rightarrow>
                    Inr (Some (FinalizationEvent (fin_id f)
                      (FinalizationPayload (fin_roundTx f) (toVtxoTree (fin_vtxoTree f))
                         (fin_connectors f) perVbyte)))))
      | None \<Rightarrow>
     (case roundFinalized data of
        Some f \<Rightarrow> Inr (Some (FinalizedEvent (finalized_id f) (finalized_roundTxid f)))
      | None \<Rightarrow>
     (case roundFailed data of
        Some f \<Rightarrow> Inr (Some (FailedEvent (failed_id f) (failed_reason f)))
      | None \<Rightarrow>
     (case roundSigning data of
        Some f \<Rightarrow>
          Inr (Some (SigningStartEvent (signing_id f)
            (SigningStartPayload (cosignersPubkeys f) (toVtxoTree (signing_unsignedVtxoTree f))
               (unsignedRoundTx f))))
      | None \<Rightarrow>
     (case roundSigningNoncesGenerated data of
        Some f \<Rightarrow>
          Inr (Some (SigningNoncesGeneratedEvent (nonces_id f)
            (SigningNoncesGeneratedPayload (nonces_treeNonces f))))
      | None \<Rightarrow> Inr None)))))"

section \<open>VHTLC options (the callers of VHTLC.Script)\<close>

text \<open>
  The options object that \<open>examples/vhtlc.js\<close> and the integration test pass to
  \<open>new VHTLC.Script\<close>. The keys, the preimage hash and the chain tip are values of
  the run and are parameters here; the delays are the literals of the two files.
\<close>

datatype TimelockType = blocks | seconds

record RelativeTimelock =
  timelock_type :: TimelockType
  timelock_value :: int

record VHTLC_Options =
  preimageHash :: bytes
  sender :: bytes
  receiver :: bytes
  server :: bytes
  refundLocktime :: int
  unilateralClaimDelay :: RelativeTimelock
  unilateralRefundDelay :: RelativeTimelock
  unilateralRefundWithoutReceiverDelay :: RelativeTimelock











section \<open>Properties\<close>

subsection \<open>getBalance\<close>

lemma reduce_value_foldl:
  "foldl (\<lambda>sum coin. sum + coin_value coin) a xs = a + sum_list (map coin_value xs)"
  by (induction xs arbitrary: a) simp_all

lemma reduce_value_sum: "reduce_value xs = sum_list (map coin_value xs)"
  by (simp add: reduce_value_def reduce_value_foldl)

lemma sum_settled_pending:
  "sum_list (map f (filter (\<lambda>c. g c = Settled) xs)) + sum_list (map f (filter (\<lambda>c. g c = Pending) xs))
   = sum_list (map (f::'a \<Rightarrow> int) (filter (\<lambda>c. g c \<noteq> Swept \<and> g c \<noteq> Spent) xs))"
proof (induction xs)
  case Nil
  show ?case by simp
next
  case (Cons x xs)
  then show ?case by (cases "g x") simp_all
qed

text \<open>
  Claim C9. For every list \<open>vtxos\<close> of virtual coins the Ark provider returns,
  \<open>getBalance\<close> reports the swept coins' value in \<open>offchain.swept\<close>, and
  \<open>offchain.total\<close> is the sum of the settled and the pending values only: it is the
  value of the coins that are neither swept nor spent. The wallet's \<open>total\<close> is
  \<open>onchain.total + settled + pending\<close>.
\<close>

theorem getBalance_excludes_swept:
  fixes coins :: "Coin list" and vtxos :: "VirtualCoin list" and a :: string
  defines "b \<equiv> getBalance \<lparr> onchainProvider = coins, arkProvider = Some vtxos, offchainAddress = Some a \<rparr>"
  shows "swept (offchain b) = sum_list (map coin_value (filter (\<lambda>c. state (virtualStatus c) = Swept) vtxos))
   \<and> settled (offchain b) = sum_list (map coin_value (filter (\<lambda>c. state (virtualStatus c) = Settled) vtxos))
   \<and> pending (offchain b) = sum_list (map coin_value (filter (\<lambda>c. state (virtualStatus c) = Pending) vtxos))
   \<and> offchain_total (offchain b) = settled (offchain b) + pending (offchain b)
   \<and> offchain_total (offchain b) =
       sum_list (map coin_value (filter (\<lambda>c. state (virtualStatus c) \<noteq> Swept \<and> state (virtualStatus c) \<noteq> Spent) vtxos))
   \<and> total b = onchain_total (onchain b) + settled (offchain b) + pending (offchain b)"
proof -
  have sw: "swept (offchain b) = sum_list (map coin_value (filter (\<lambda>c. state (virtualStatus c) = Swept) vtxos))"
    by (simp add: b_def getBalance_def getVirtualCoins_def Let_def reduce_value_sum)
  have se: "settled (offchain b) = sum_list (map coin_value (filter (\<lambda>c. state (virtualStatus c) = Settled) vtxos))"
    by (simp add: b_def getBalance_def getVirtualCoins_def Let_def reduce_value_sum)
  have pe: "pending (offchain b) = sum_list (map coin_value (filter (\<lambda>c. state (virtualStatus c) = Pending) vtxos))"
    by (simp add: b_def getBalance_def getVirtualCoins_def Let_def reduce_value_sum)
  have ot: "offchain_total (offchain b) = settled (offchain b) + pending (offchain b)"
    by (simp add: b_def getBalance_def Let_def)
  have tt: "total b = onchain_total (onchain b) + settled (offchain b) + pending (offchain b)"
    by (simp add: b_def getBalance_def Let_def)
  have ex: "offchain_total (offchain b) =
       sum_list (map coin_value (filter (\<lambda>c. state (virtualStatus c) \<noteq> Swept \<and> state (virtualStatus c) \<noteq> Spent) vtxos))"
    unfolding ot se pe by (rule sum_settled_pending)
  show ?thesis using sw se pe ot tt ex by blast
qed

subsection \<open>sendBitcoin\<close>

text \<open>
  Claim C10. A payment of exactly 546 sats passes both amount checks and goes to
  \<open>sendOnchain\<close>, with or without an Ark provider. \<open>sendBitcoin\<close> throws exactly for
  the amounts below 546 (the dust error for those that are positive), and
  \<open>sendOffchain\<close> is chosen exactly when an Ark provider is configured and the
  amount is above 546.
\<close>

theorem sendBitcoin_at_dust_limit:
  "sendBitcoin w (params\<lparr>amount := 546\<rparr>) = Inr SendOnchain
   \<and> ((\<exists>e. sendBitcoin w p = Inl e) = (amount p < 546))
   \<and> ((sendBitcoin w p = Inl (Error ''Amount is below dust limit'')) = (0 < amount p \<and> amount p < 546))
   \<and> ((sendBitcoin w p = Inr SendOffchain) = (arkProvider w \<noteq> None \<and> amount p > 546))"
proof -
  have at: "sendBitcoin w (params\<lparr>amount := 546\<rparr>) = Inr SendOnchain"
    by (simp add: sendBitcoin_def isOffchainSuitable_def DUST_AMOUNT_def)
  have thrown: "(\<exists>e. sendBitcoin w p = Inl e) = (amount p < 546)"
    by (auto simp: sendBitcoin_def DUST_AMOUNT_def)
  have dust: "(sendBitcoin w p = Inl (Error ''Amount is below dust limit'')) = (0 < amount p \<and> amount p < 546)"
    by (auto simp: sendBitcoin_def DUST_AMOUNT_def)
  have off: "(sendBitcoin w p = Inr SendOffchain) = (arkProvider w \<noteq> None \<and> amount p > 546)"
    by (auto simp: sendBitcoin_def isOffchainSuitable_def DUST_AMOUNT_def)
  show ?thesis using at thrown dust off by blast
qed

subsection \<open>buildForfeitTx\<close>

lemma buildForfeitTx_inputs:
  "inputs (buildForfeitTx p) =
     [\<lparr> input_txid = txid (connectorInput p), index = vout (connectorInput p),
        witnessUtxo = \<lparr> utxo_script = connectorPkScript p, utxo_amount = connectorAmount p \<rparr>,
        sequence = 0xffffffff, sighashType = None \<rparr>,
      \<lparr> input_txid = txid (vtxoInput p), index = vout (vtxoInput p),
        witnessUtxo = \<lparr> utxo_script = vtxoPkScript p, utxo_amount = vtxoAmount p \<rparr>,
        sequence = (if truthy (txLocktime p) then 0xfffffffe else 0xffffffff),
        sighashType = Some SigHash_DEFAULT \<rparr>]"
  by (simp add: buildForfeitTx_def Let_def addInput_def addOutput_def new_Transaction_def)

lemma buildForfeitTx_outputs:
  "outputs (buildForfeitTx p) =
     [\<lparr> output_script = serverPkScript p, output_amount = vtxoAmount p + connectorAmount p \<rparr>, P2A]"
  by (simp add: buildForfeitTx_def Let_def addInput_def addOutput_def new_Transaction_def)




text \<open>
  Claim C8. For every call of \<open>buildForfeitTx\<close> the transaction has two inputs:
  input 0, the connector, has sequence \<open>0xffffffff\<close> and no sighash type; input 1,
  the vtxo, has sighash type DEFAULT, and its sequence is \<open>0xfffffffe\<close> if and only
  if a locktime other than 0 is given, and \<open>0xffffffff\<close> otherwise.
\<close>

theorem buildForfeitTx_sequences:
  "length (inputs (buildForfeitTx p)) = 2
   \<and> sequence (inputs (buildForfeitTx p) ! 0) = 0xffffffff
   \<and> sighashType (inputs (buildForfeitTx p) ! 0) = None
   \<and> sighashType (inputs (buildForfeitTx p) ! 1) = Some SigHash_DEFAULT
   \<and> ((sequence (inputs (buildForfeitTx p) ! 1) = 0xfffffffe) = (\<exists>n. txLocktime p = Some n \<and> n \<noteq> 0))
   \<and> sequence (inputs (buildForfeitTx p) ! 1) =
        (if \<exists>n. txLocktime p = Some n \<and> n \<noteq> 0 then 0xfffffffe else 0xffffffff)"
proof -
  have lt: "truthy (txLocktime p) = (\<exists>n. txLocktime p = Some n \<and> n \<noteq> 0)"
    by (simp add: truthy_def split: option.splits)
  show ?thesis
    by (simp add: buildForfeitTx_inputs lt)
qed

subsection \<open>settle\<close>

lemma step_notify [simp]: "step (notify cb ev st) = step st"
  and pingRunning_notify [simp]: "pingRunning (notify cb ev st) = pingRunning st"
  and handled_notify [simp]: "handled (notify cb ev st) = handled st"
  and signingSession_notify [simp]: "signingSession (notify cb ev st) = signingSession st"
  by (simp_all add: notify_def)

lemma step_stopPing [simp]: "step (stopPing st) = step st"
  and pingRunning_stopPing [simp]: "\<not> pingRunning (stopPing st)"
  and handled_stopPing [simp]: "handled (stopPing st) = handled st"
  and signingSession_stopPing [simp]: "signingSession (stopPing st) = signingSession st"
  and callbackLog_stopPing [simp]: "callbackLog (stopPing st) = callbackLog st"
  by (simp_all add: stopPing_def)

lemma step_inv_notify [simp]: "step_inv (notify cb ev st) = step_inv st"
  by (simp add: step_inv_def split: option.splits SettlementEventType.splits)

lemma settle_switch_dropped:
  assumes "ordered_type (event_type ev)" and "step st \<noteq> preceding_step (event_type ev)"
  shows "settle_switch h st ev = Continue st"
  using assms by (cases ev) (auto simp: ordered_type_def)

lemma settle_switch_accepted:
  assumes "ordered_type (event_type ev)" and "step st = preceding_step (event_type ev)"
  shows "settle_switch h st ev \<noteq> Continue st"
proof (cases ev)
  case (SigningStartEvent i p)
  with assms show ?thesis
    by (auto simp: Let_def called_def split: sum.splits dest: arg_cong [where f = step])
next
  case (SigningNoncesGeneratedEvent i p)
  with assms show ?thesis
    by (auto simp: Let_def called_def split: sum.splits option.splits dest: arg_cong [where f = step])
next
  case (FinalizationEvent i p)
  with assms show ?thesis
    by (auto simp: Let_def called_def split: sum.splits dest: arg_cong [where f = step])
qed (use assms in \<open>auto simp: ordered_type_def\<close>)

lemma settle_switch_inv:
  assumes "step_inv st" and "settle_switch h st ev = Continue st'"
  shows "step_inv st'"
proof (cases ev)
  case (SigningStartEvent i p)
  with assms show ?thesis
    by (auto simp: step_inv_def Let_def called_def split: if_splits sum.splits)
next
  case (SigningNoncesGeneratedEvent i p)
  with assms show ?thesis
    by (auto simp: step_inv_def Let_def called_def split: if_splits sum.splits option.splits)
next
  case (FinalizationEvent i p)
  with assms show ?thesis
    by (auto simp: step_inv_def Let_def called_def split: if_splits sum.splits)
next
  case (FinalizedEvent i t)
  with assms show ?thesis by (auto split: if_splits)
next
  case (FailedEvent i r)
  with assms show ?thesis by (auto split: if_splits)
next
  case (BatchStartedEvent i p)
  with assms show ?thesis by (auto simp: step_inv_def)
next
  case (BatchTreeEvent i p)
  with assms show ?thesis by (auto simp: step_inv_def)
next
  case (BatchTreeSignatureEvent i p)
  with assms show ?thesis by (auto simp: step_inv_def)
qed

lemma settle_switch_Return:
  assumes "settle_switch h st ev = Return t st'"
  shows "\<exists>i. ev = FinalizedEvent i t \<and> step st = Some Finalization \<and> st' = st"
  using assms by (cases ev) (auto simp: Let_def split: if_splits sum.splits option.splits)

lemma settle_loop_returns:
  assumes "step_inv st" and "settle_loop h cb st stream = (Inr t, st')"
  shows "handled st' = [SigningStart, SigningNoncesGenerated, Finalization] \<and> \<not> pingRunning st'
         \<and> step st' = Some Finalization"
  using assms
proof (induction stream arbitrary: st)
  case Nil
  then show ?case by simp
next
  case (Cons x stream)
  show ?case
  proof (cases x)
    case (Inl e)
    with Cons.prems show ?thesis by simp
  next
    case (Inr ev)
    show ?thesis
    proof (cases "settle_body h cb st ev")
      case (Continue st1)
      then have "step_inv st1"
        using Cons.prems(1) settle_switch_inv [of "notify cb ev st" h ev st1]
        by (simp add: settle_body_def)
      moreover have "settle_loop h cb st1 stream = (Inr t, st')"
        using Cons.prems(2) Inr Continue by simp
      ultimately show ?thesis by (rule Cons.IH)
    next
      case (Return t1 st1)
      then have eq: "t1 = t" "st1 = st'"
        using Cons.prems(2) Inr by simp_all
      from Return obtain i where "step (notify cb ev st) = Some Finalization" "st1 = notify cb ev st"
        using settle_switch_Return [of h "notify cb ev st" ev t1 st1]
        by (auto simp: settle_body_def)
      with Cons.prems(1) eq show ?thesis
        by (auto simp: step_inv_def)
    next
      case (Throw e st1)
      with Cons.prems(2) Inr show ?thesis by simp
    qed
  qed
qed

lemma settle_returns:
  assumes "settle env cb = (Inr t, st')"
  shows "handled st' = [SigningStart, SigningNoncesGenerated, Finalization] \<and> \<not> pingRunning st'"
proof -
  let ?st = "initial_state\<lparr>pingRunning := True\<rparr> :: ('a, 'b) SettleState"
  have inv: "step_inv ?st"
    by (simp add: step_inv_def initial_state_def)
  from assms have "settle_loop (handlers env) cb ?st (getEventStream env) = (Inr t, st')"
    by (auto simp: settle_def Let_def split: if_splits sum.splits)
  from settle_loop_returns [OF inv this] show ?thesis by simp
qed

lemmas run_defs = settle_def ok_env_def ok_handlers_def settle_body_def notify_def stopPing_def
  called_def initial_state_def Let_def

text \<open>
  Claim C3, as stated, fails: a \<open>Failed\<close> event received after registration and
  before \<open>SigningStart\<close> is skipped (\<open>if (step === undefined) continue\<close>). With a
  stream of that one event the ping is still running when \<open>settle\<close> ends, and
  \<open>settle\<close> throws \<open>Settlement failed\<close>, not the reason; followed by the four events
  of a round, \<open>settle\<close> returns the round's txid.
\<close>

theorem settle_failed_before_signing_counterexample:
  "settle (ok_env [Inr (FailedEvent ''r'' ''timeout'')]) False
     = (Inl (Error ''Settlement failed''), initial_state\<lparr>pingRunning := True\<rparr>)
   \<and> fst (settle (ok_env [Inr (FailedEvent ''r'' ''timeout''), Inr (SigningStartEvent ''r'' ()),
                          Inr (SigningNoncesGeneratedEvent ''r'' ()), Inr (FinalizationEvent ''r'' ()),
                          Inr (FinalizedEvent ''r'' ''txid'')]) False) = Inr ''txid''"
  by (simp add: run_defs)

text \<open>
  Claim C3, amended. A \<open>Failed\<close> event received while the step is defined (an
  earlier event has set it, \<open>SigningStart\<close> first in a round) aborts: the ping is
  stopped and \<open>settle\<close> throws the event's reason. A \<open>Failed\<close> event received
  while the step is still undefined is skipped, and \<open>settle\<close> goes on with the rest
  of the stream.
\<close>

theorem settle_failed_event:
  "(step st \<noteq> None \<longrightarrow>
      settle_loop h cb st (Inr (FailedEvent i reason) # stream)
        = (Inl (Error reason), stopPing (notify cb (FailedEvent i reason) st))
      \<and> \<not> pingRunning (stopPing (notify cb (FailedEvent i reason) st)))
   \<and> (step st = None \<longrightarrow>
      settle_loop h cb st (Inr (FailedEvent i reason) # stream)
        = settle_loop h cb (notify cb (FailedEvent i reason) st) stream)"
  by (simp add: settle_body_def)

text \<open>The two cases of \<open>settle_failed_event\<close> at concrete states.\<close>

theorem settle_failed_event_witness:
  "step (initial_state\<lparr>step := Some SigningStart\<rparr> :: (unit, unit) SettleState) \<noteq> None
   \<and> settle_loop ok_handlers False (initial_state\<lparr>step := Some SigningStart, pingRunning := True\<rparr>)
        [Inr (FailedEvent ''r'' ''timeout'')]
      = (Inl (Error ''timeout''), initial_state\<lparr>step := Some SigningStart\<rparr>)
   \<and> step (initial_state :: (unit, unit) SettleState) = None
   \<and> settle_loop ok_handlers False initial_state [Inr (FailedEvent ''r'' ''timeout'')]
      = (Inl (Error ''Settlement failed''), initial_state)"
  using settle_failed_event [where st = "initial_state\<lparr>step := Some SigningStart, pingRunning := True\<rparr>"
          and h = ok_handlers and cb = False and i = "''r''" and reason = "''timeout''" and stream = "[]"]
        settle_failed_event [where st = "initial_state" and h = ok_handlers and cb = False
          and i = "''r''" and reason = "''timeout''" and stream = "[]"]
  by (simp add: notify_def stopPing_def initial_state_def)

text \<open>
  Claim C4 at three inputs: after a successful registration the event stream ends
  without an event, the event stream throws before any event, or \<open>getInfo\<close> throws.
  In each \<open>settle\<close> throws and the ping interval is still scheduled.
\<close>

theorem settle_ping_left_running:
  "settle (ok_env []) False = (Inl (Error ''Settlement failed''), initial_state\<lparr>pingRunning := True\<rparr>)
   \<and> settle (ok_env [Inl (Error ''Unexpected status 500 when fetching event stream'')]) False
       = (Inl (Error ''Unexpected status 500 when fetching event stream''), initial_state\<lparr>pingRunning := True\<rparr>)
   \<and> settle ((ok_env [])\<lparr>getInfo := Inl (Error ''Failed to get server info'')\<rparr>) False
       = (Inl (Error ''Failed to get server info''), initial_state\<lparr>pingRunning := True\<rparr>)
   \<and> pingRunning (initial_state\<lparr>pingRunning := True\<rparr> :: (unit, unit) SettleState)"
  by (simp add: run_defs)

text \<open>
  Claim C5. An event of one of the four types \<open>SigningStart\<close>,
  \<open>SigningNoncesGenerated\<close>, \<open>Finalization\<close>, \<open>Finalized\<close> that arrives when the
  step is not the one preceding it in that order (so also a duplicate) is dropped: the
  loop goes on with the state as it was, apart from the event having been handed to
  \<open>eventCallback\<close> when one is given. One that arrives at its preceding step is not
  dropped. A \<open>Finalized\<close> event at step \<open>Finalization\<close> makes \<open>settle\<close> return its
  \<open>roundTxid\<close>. Whenever \<open>settle\<close> returns, the handlers have been called exactly
  once each, in the order \<open>SigningStart\<close>, \<open>SigningNoncesGenerated\<close>,
  \<open>Finalization\<close>.
\<close>

theorem settle_event_order:
  "(ordered_type (event_type ev) \<and> step st \<noteq> preceding_step (event_type ev)
      \<longrightarrow> settle_body h cb st ev = Continue (notify cb ev st))
   \<and> (ordered_type (event_type ev) \<and> step st = preceding_step (event_type ev)
      \<longrightarrow> settle_body h cb st ev \<noteq> Continue (notify cb ev st))
   \<and> (step st = Some Finalization
      \<longrightarrow> settle_loop h cb st (Inr (FinalizedEvent i roundTxid) # stream)
            = (Inr roundTxid, notify cb (FinalizedEvent i roundTxid) st))
   \<and> (settle env cb = (Inr t, st')
      \<longrightarrow> handled st' = [SigningStart, SigningNoncesGenerated, Finalization])"
proof -
  have dropped: "settle_body h cb st ev = Continue (notify cb ev st)"
    if "ordered_type (event_type ev)" "step st \<noteq> preceding_step (event_type ev)"
    using that settle_switch_dropped [of ev "notify cb ev st" h] by (simp add: settle_body_def)
  have accepted: "settle_body h cb st ev \<noteq> Continue (notify cb ev st)"
    if "ordered_type (event_type ev)" "step st = preceding_step (event_type ev)"
    using that settle_switch_accepted [of ev "notify cb ev st" h] by (simp add: settle_body_def)
  have finalized: "settle_loop h cb st (Inr (FinalizedEvent i roundTxid) # stream)
            = (Inr roundTxid, notify cb (FinalizedEvent i roundTxid) st)"
    if "step st = Some Finalization"
    using that by (simp add: settle_body_def)
  have run: "handled st' = [SigningStart, SigningNoncesGenerated, Finalization]"
    if "settle env cb = (Inr t, st')"
    using settle_returns [OF that] by simp
  show ?thesis using dropped accepted finalized run by blast
qed

text \<open>
  The cases of \<open>settle_event_order\<close> at concrete inputs: a \<open>Finalized\<close> event
  before anything else is dropped, a \<open>SigningStart\<close> event then is not, and a run over
  the four events in order returns the txid.
\<close>

theorem settle_event_order_witness:
  "ordered_type (event_type (FinalizedEvent ''r'' ''txid'' :: unit SettlementEvent))
   \<and> step (initial_state\<lparr>pingRunning := True\<rparr> :: (unit, unit) SettleState)
        \<noteq> preceding_step (event_type (FinalizedEvent ''r'' ''txid'' :: unit SettlementEvent))
   \<and> settle_body ok_handlers False (initial_state\<lparr>pingRunning := True\<rparr>) (FinalizedEvent ''r'' ''txid'')
        = Continue (initial_state\<lparr>pingRunning := True\<rparr>)
   \<and> step (initial_state\<lparr>pingRunning := True\<rparr> :: (unit, unit) SettleState)
        = preceding_step (event_type (SigningStartEvent ''r'' ()))
   \<and> settle_body ok_handlers False (initial_state\<lparr>pingRunning := True\<rparr>) (SigningStartEvent ''r'' ())
        \<noteq> Continue (initial_state\<lparr>pingRunning := True\<rparr>)
   \<and> settle_loop ok_handlers False (initial_state\<lparr>step := Some Finalization\<rparr>) [Inr (FinalizedEvent ''r'' ''txid'')]
        = (Inr ''txid'', initial_state\<lparr>step := Some Finalization\<rparr>)
   \<and> fst (settle (ok_env [Inr (SigningStartEvent ''r'' ()), Inr (SigningNoncesGeneratedEvent ''r'' ()),
                          Inr (FinalizationEvent ''r'' ()), Inr (FinalizedEvent ''r'' ''txid'')]) False) = Inr ''txid''
   \<and> handled (snd (settle (ok_env [Inr (SigningStartEvent ''r'' ()), Inr (SigningNoncesGeneratedEvent ''r'' ()),
                          Inr (FinalizationEvent ''r'' ()), Inr (FinalizedEvent ''r'' ''txid'')]) False))
        = [SigningStart, SigningNoncesGenerated, Finalization]"
proof -
  let ?st = "initial_state\<lparr>pingRunning := True\<rparr> :: (unit, unit) SettleState"
  let ?env = "ok_env [Inr (SigningStartEvent ''r'' ()), Inr (SigningNoncesGeneratedEvent ''r'' ()),
                          Inr (FinalizationEvent ''r'' ()), Inr (FinalizedEvent ''r'' ''txid'')]"
  have h1: "ordered_type (event_type (FinalizedEvent ''r'' ''txid'' :: unit SettlementEvent))"
    by (simp add: ordered_type_def)
  have h2: "step ?st \<noteq> preceding_step (event_type (FinalizedEvent ''r'' ''txid'' :: unit SettlementEvent))"
    by (simp add: initial_state_def)
  have h3: "ordered_type (event_type (SigningStartEvent ''r'' ()))"
    by (simp add: ordered_type_def)
  have h4: "step ?st = preceding_step (event_type (SigningStartEvent ''r'' ()))"
    by (simp add: initial_state_def)
  have h5: "step (initial_state\<lparr>step := Some Finalization\<rparr> :: (unit, unit) SettleState) = Some Finalization"
    by simp
  have h6: "settle ?env False = (Inr ''txid'', snd (settle ?env False))"
    by (simp add: run_defs)
  have c1: "settle_body ok_handlers False ?st (FinalizedEvent ''r'' ''txid'') = Continue ?st"
    using settle_event_order [where ev = "FinalizedEvent ''r'' ''txid''" and st = ?st and h = ok_handlers and cb = False] h1 h2
    by (auto simp add: notify_def)
  have c2: "settle_body ok_handlers False ?st (SigningStartEvent ''r'' ()) \<noteq> Continue ?st"
    using settle_event_order [where ev = "SigningStartEvent ''r'' ()" and st = ?st and h = ok_handlers and cb = False] h3 h4
    by (auto simp add: notify_def)
  have c3: "settle_loop ok_handlers False (initial_state\<lparr>step := Some Finalization\<rparr>) [Inr (FinalizedEvent ''r'' ''txid'')]
        = (Inr ''txid'', initial_state\<lparr>step := Some Finalization\<rparr>)"
    using settle_event_order [where st = "initial_state\<lparr>step := Some Finalization\<rparr>" and h = ok_handlers
        and cb = False and i = "''r''" and roundTxid = "''txid''" and stream = "[]"] h5
    by (auto simp add: notify_def)
  have c4: "handled (snd (settle ?env False)) = [SigningStart, SigningNoncesGenerated, Finalization]"
    by (rule settle_event_order [where env = ?env and cb = False and t = "''txid''"
          and st' = "snd (settle ?env False)", THEN conjunct2, THEN conjunct2, THEN conjunct2, THEN mp, OF h6])
  have c5: "fst (settle ?env False) = Inr ''txid''"
    using h6 by (metis fst_conv)
  show ?thesis using h1 h2 h4 c1 c2 c3 c4 c5 by blast
qed

subsection \<open>encodeMatrix and decodeMatrix\<close>

lemma length_u32le [simp]: "length (u32le n) = 4"
  by (simp add: u32le_def)

lemma unat_byte: "unat (word_of_nat n :: 8 word) = n mod 256"
  by (simp add: unat_of_nat)

lemma mod_2_32_bytes:
  fixes n :: nat
  shows "n mod 4294967296 = n mod 256 + 256 * (n div 256 mod 256) + 65536 * (n div 65536 mod 256)
          + 16777216 * (n div 16777216 mod 256)"
proof -
  have a: "n mod (256 * 16777216) = 256 * (n div 256 mod 16777216) + n mod 256"
    by (rule mod_mult2_eq)
  have b: "(n div 256) mod (256 * 65536) = 256 * (n div 256 div 256 mod 65536) + n div 256 mod 256"
    by (rule mod_mult2_eq)
  have c: "(n div 65536) mod (256 * 256) = 256 * (n div 65536 div 256 mod 256) + n div 65536 mod 256"
    by (rule mod_mult2_eq)
  have d1: "n div 256 div 256 = n div 65536"
    by (simp add: div_mult2_eq [symmetric])
  have d2: "n div 65536 div 256 = n div 16777216"
    by (simp add: div_mult2_eq [symmetric])
  from a b c d1 d2 show ?thesis by simp
qed

lemma u32le_value:
  "unat (u32le n ! 0) + 256 * unat (u32le n ! 1) + 65536 * unat (u32le n ! 2)
     + 16777216 * unat (u32le n ! 3) = n mod 2 ^ 32"
proof -
  have "n mod 2 ^ 32 = n mod 256 + 256 * (n div 256 mod 256) + 65536 * (n div 65536 mod 256)
          + 16777216 * (n div 16777216 mod 256)"
    using mod_2_32_bytes [of n] by simp
  then show ?thesis
    by (simp add: u32le_def unat_byte)
qed

lemma write_bytes_at:
  assumes "length bs \<le> length rest"
  shows "write_bytes (pre @ rest) (length pre) bs = Inr (pre @ bs @ drop (length bs) rest)"
  using assms by (simp add: write_bytes_def)

lemma write_bytes_zeros:
  assumes "length bs \<le> n"
  shows "write_bytes (pre @ replicate n 0) (length pre) bs
           = Inr ((pre @ bs) @ replicate (n - length bs) 0)"
  using assms by (simp add: write_bytes_at)

lemma read_bytes_at:
  "read_bytes (pre @ bs @ rest) (length pre) (length bs) = Inr bs"
  by (simp add: read_bytes_def)

lemma getUint32_at:
  "getUint32 (pre @ u32le n @ rest) (length pre) = Inr (n mod 2 ^ 32)"
  using read_bytes_at [of pre "u32le n" rest] u32le_value [of n]
  by (simp add: getUint32_def)

lemma getUint8_at:
  "getUint8 (pre @ b # rest) (length pre) = Inr b"
  using read_bytes_at [of pre "[b]" rest]
  by (simp add: getUint8_def)

lemma wire_cell_empty: "wire_cell [] = [0]"
  by (simp add: wire_cell_def)

lemma wire_cell_present: "cell \<noteq> [] \<Longrightarrow> wire_cell cell = 1 # cell"
  by (simp add: wire_cell_def)

lemma length_wire_row: "length (wire_row row) = 4 + length (concat (map wire_cell row))"
  by (simp add: wire_row_def [of row])

lemma encode_cells_zeros:
  assumes "length (concat (map wire_cell row)) \<le> n"
  shows "encode_cells (pre @ replicate n 0, length pre) row
           = Inr ((pre @ concat (map wire_cell row)) @ replicate (n - length (concat (map wire_cell row))) 0,
                  length pre + length (concat (map wire_cell row)))"
  using assms
proof (induction row arbitrary: pre n)
  case Nil
  then show ?case by simp
next
  case (Cons cell row)
  show ?case
  proof (cases "cell = []")
    case True
    with Cons.prems have n: "1 \<le> n" "length (concat (map wire_cell row)) \<le> n - 1"
      by (simp_all add: wire_cell_empty)
    have w: "setInt8 (pre @ replicate n 0) (length pre) 0 = Inr ((pre @ [0]) @ replicate (n - 1) 0)"
      using write_bytes_zeros [of "[0]" n pre] n by (simp add: setInt8_def)
    have "encode_cells (pre @ replicate n 0, length pre) (cell # row)
            = encode_cells ((pre @ [0]) @ replicate (n - 1) 0, length (pre @ [0])) row"
      using True w by simp
    also have "\<dots> = Inr (((pre @ [0]) @ concat (map wire_cell row))
                          @ replicate (n - 1 - length (concat (map wire_cell row))) 0,
                        length (pre @ [0]) + length (concat (map wire_cell row)))"
      by (rule Cons.IH [OF n(2)])
    finally show ?thesis using True by (simp add: wire_cell_empty)
  next
    case False
    let ?k = "length cell"
    from False Cons.prems have n: "1 + ?k \<le> n" "length (concat (map wire_cell row)) \<le> n - (1 + ?k)"
      by (simp_all add: wire_cell_present)
    have w1: "setInt8 (pre @ replicate n 0) (length pre) 1 = Inr ((pre @ [1]) @ replicate (n - 1) 0)"
      using write_bytes_zeros [of "[1]" n pre] n by (simp add: setInt8_def)
    have w2: "set_at ((pre @ [1]) @ replicate (n - 1) 0) cell (length pre + 1)
                = Inr (((pre @ [1]) @ cell) @ replicate (n - 1 - ?k) 0)"
      using write_bytes_zeros [of cell "n - 1" "pre @ [1]"] n by (simp add: set_at_def)
    have "encode_cells (pre @ replicate n 0, length pre) (cell # row)
            = encode_cells (((pre @ [1]) @ cell) @ replicate (n - (1 + ?k)) 0, length ((pre @ [1]) @ cell)) row"
      using False w1 w2 by (simp add: add.commute)
    also have "\<dots> = Inr ((((pre @ [1]) @ cell) @ concat (map wire_cell row))
                          @ replicate (n - (1 + ?k) - length (concat (map wire_cell row))) 0,
                        length ((pre @ [1]) @ cell) + length (concat (map wire_cell row)))"
      by (rule Cons.IH [OF n(2)])
    finally show ?thesis using False by (simp add: wire_cell_present)
  qed
qed

lemma encode_rows_zeros:
  assumes "length (concat (map wire_row matrix)) \<le> n"
  shows "encode_rows (pre @ replicate n 0, length pre) matrix
           = Inr ((pre @ concat (map wire_row matrix)) @ replicate (n - length (concat (map wire_row matrix))) 0,
                  length pre + length (concat (map wire_row matrix)))"
  using assms
proof (induction matrix arbitrary: pre n)
  case Nil
  then show ?case by simp
next
  case (Cons row matrix)
  let ?c = "concat (map wire_cell row)"
  from Cons.prems have n: "4 \<le> n" "length ?c \<le> n - 4"
      "length (concat (map wire_row matrix)) \<le> n - 4 - length ?c"
    by (simp_all add: length_wire_row)
  have w: "setUint32 (pre @ replicate n 0) (length pre) (length row)
             = Inr ((pre @ u32le (length row)) @ replicate (n - 4) 0)"
    using write_bytes_zeros [of "u32le (length row)" n pre] n by (simp add: setUint32_def)
  have c: "encode_cells ((pre @ u32le (length row)) @ replicate (n - 4) 0, length pre + 4) row
             = Inr (((pre @ u32le (length row)) @ ?c) @ replicate (n - 4 - length ?c) 0,
                    length ((pre @ u32le (length row)) @ ?c))"
    using encode_cells_zeros [OF n(2), of "pre @ u32le (length row)"] by simp
  have "encode_rows (pre @ replicate n 0, length pre) (row # matrix)
          = encode_rows (((pre @ u32le (length row)) @ ?c) @ replicate (n - 4 - length ?c) 0,
                    length ((pre @ u32le (length row)) @ ?c)) matrix"
    using w c by simp
  also have "\<dots> = Inr ((((pre @ u32le (length row)) @ ?c) @ concat (map wire_row matrix))
                        @ replicate (n - 4 - length ?c - length (concat (map wire_row matrix))) 0,
                      length ((pre @ u32le (length row)) @ ?c) + length (concat (map wire_row matrix)))"
    by (rule Cons.IH [OF n(3)])
  finally show ?case by (simp add: wire_row_def [of row])
qed

lemma length_wire_cell: "length (wire_cell cell) = 1 + length cell"
  by (simp add: wire_cell_def)

lemma foldl_cells_size:
  "foldl (\<lambda>total cell. total + 1 + length cell) t row = t + length (concat (map wire_cell row))"
proof (induction row arbitrary: t)
  case Nil
  show ?case by simp
next
  case (Cons cell row)
  have "foldl (\<lambda>total cell. total + 1 + length cell) t (cell # row)
          = foldl (\<lambda>total cell. total + 1 + length cell) (t + 1 + length cell) row"
    by (simp only: foldl_Cons)
  also have "\<dots> = t + 1 + length cell + length (concat (map wire_cell row))"
    by (rule Cons.IH)
  finally show ?case by (simp add: length_wire_cell)
qed

lemma foldl_rows_size:
  "foldl (\<lambda>total row. foldl (\<lambda>total cell. total + 1 + length cell) (total + 4) row) t matrix
     = t + length (concat (map wire_row matrix))"
proof (induction matrix arbitrary: t)
  case Nil
  show ?case by simp
next
  case (Cons row matrix)
  have "foldl (\<lambda>total row. foldl (\<lambda>total cell. total + 1 + length cell) (total + 4) row) t (row # matrix)
          = foldl (\<lambda>total row. foldl (\<lambda>total cell. total + 1 + length cell) (total + 4) row)
              (foldl (\<lambda>total cell. total + 1 + length cell) (t + 4) row) matrix"
    by (simp only: foldl_Cons)
  also have "\<dots> = foldl (\<lambda>total cell. total + 1 + length cell) (t + 4) row
                      + length (concat (map wire_row matrix))"
    by (rule Cons.IH)
  also have "\<dots> = t + 4 + length (concat (map wire_cell row)) + length (concat (map wire_row matrix))"
    by (simp only: foldl_cells_size)
  finally show ?case by (simp add: length_wire_row)
qed

lemma totalSize_wire: "totalSize matrix = length (wire_matrix matrix)"
  unfolding totalSize_def foldl_rows_size wire_matrix_def by simp

lemma encodeMatrix_wire: "encodeMatrix matrix = Inr (wire_matrix matrix)"
proof -
  let ?r = "concat (map wire_row matrix)"
  have size: "totalSize matrix = 4 + length ?r"
    by (simp add: totalSize_wire wire_matrix_def)
  have w: "setUint32 (replicate (totalSize matrix) 0) 0 (length matrix)
             = Inr (u32le (length matrix) @ replicate (length ?r) 0)"
    using write_bytes_zeros [of "u32le (length matrix)" "totalSize matrix" "[]"] size
    by (simp add: setUint32_def)
  have r: "encode_rows (u32le (length matrix) @ replicate (length ?r) 0, 4) matrix
             = Inr (u32le (length matrix) @ ?r, 4 + length ?r)"
    using encode_rows_zeros [of matrix "length ?r" "u32le (length matrix)"] by simp
  show ?thesis
    by (simp add: encodeMatrix_def w r wire_matrix_def)
qed

lemma decode_cells_wire:
  assumes "list_all (\<lambda>cell. cell = [] \<or> length cell = cellLength) row"
  shows "decode_cells (pre @ concat (map wire_cell row) @ rest) cellLength (length row) (length pre)
           = Inr (row, length pre + length (concat (map wire_cell row)))"
  using assms
proof (induction row arbitrary: pre)
  case Nil
  show ?case by simp
next
  case (Cons cell row)
  let ?tail = "concat (map wire_cell row) @ rest"
  from Cons.prems have row: "list_all (\<lambda>cell. cell = [] \<or> length cell = cellLength) row"
    by simp
  show ?case
  proof (cases "cell = []")
    case True
    have buf: "pre @ concat (map wire_cell (cell # row)) @ rest = pre @ 0 # ?tail"
      using True by (simp add: wire_cell_empty)
    have flag: "getUint8 (pre @ 0 # ?tail) (length pre) = Inr 0"
      by (rule getUint8_at)
    have rest: "decode_cells ((pre @ [0]) @ ?tail) cellLength (length row) (length (pre @ [0]))
                  = Inr (row, length (pre @ [0]) + length (concat (map wire_cell row)))"
      by (rule Cons.IH [OF row])
    show ?thesis
      unfolding buf using flag rest True by (simp add: wire_cell_empty)
  next
    case False
    with Cons.prems have len: "length cell = cellLength"
      by simp
    have buf: "pre @ concat (map wire_cell (cell # row)) @ rest = pre @ 1 # cell @ ?tail"
      using False by (simp add: wire_cell_present)
    have flag: "getUint8 (pre @ 1 # cell @ ?tail) (length pre) = Inr 1"
      by (rule getUint8_at)
    have cell: "read_bytes ((pre @ [1]) @ cell @ ?tail) (length (pre @ [1])) (length cell) = Inr cell"
      by (rule read_bytes_at)
    have rest: "decode_cells ((pre @ 1 # cell) @ ?tail) cellLength (length row) (length (pre @ 1 # cell))
                  = Inr (row, length (pre @ 1 # cell) + length (concat (map wire_cell row)))"
      by (rule Cons.IH [OF row])
    show ?thesis
      unfolding buf using flag cell rest False len by (simp add: wire_cell_present)
  qed
qed

lemma decode_rows_wire:
  assumes "cells_of_length cellLength matrix"
    and "list_all (\<lambda>row. length row < 2 ^ 32) matrix"
  shows "decode_rows (pre @ concat (map wire_row matrix) @ rest) cellLength (length matrix) (length pre)
           = Inr (matrix, length pre + length (concat (map wire_row matrix)))"
  using assms
proof (induction matrix arbitrary: pre)
  case Nil
  show ?case by simp
next
  case (Cons row matrix)
  let ?cells = "concat (map wire_cell row)"
  let ?tail = "concat (map wire_row matrix) @ rest"
  from Cons.prems have cells: "list_all (\<lambda>cell. cell = [] \<or> length cell = cellLength) row"
    and more: "cells_of_length cellLength matrix" "list_all (\<lambda>row. length row < 2 ^ 32) matrix"
    and small: "length row < 2 ^ 32"
    by (simp_all add: cells_of_length_def)
  have buf: "pre @ concat (map wire_row (row # matrix)) @ rest
               = pre @ u32le (length row) @ ?cells @ ?tail"
    by (simp add: wire_row_def [of row])
  have len: "getUint32 (pre @ u32le (length row) @ ?cells @ ?tail) (length pre) = Inr (length row)"
    using getUint32_at [of pre "length row" "?cells @ ?tail"] small by simp
  have c: "decode_cells ((pre @ u32le (length row)) @ ?cells @ ?tail) cellLength (length row)
                (length (pre @ u32le (length row)))
             = Inr (row, length (pre @ u32le (length row)) + length ?cells)"
    by (rule decode_cells_wire [OF cells])
  have r: "decode_rows ((pre @ u32le (length row) @ ?cells) @ ?tail) cellLength (length matrix)
                (length (pre @ u32le (length row) @ ?cells))
             = Inr (matrix, length (pre @ u32le (length row) @ ?cells) + length (concat (map wire_row matrix)))"
    by (rule Cons.IH [OF more])
  show ?case
    unfolding buf using len c r by (simp add: length_wire_row add.assoc)
qed

lemma decodeMatrix_wire:
  assumes "cells_of_length cellLength matrix"
    and "length matrix < 2 ^ 32"
    and "list_all (\<lambda>row. length row < 2 ^ 32) matrix"
  shows "decodeMatrix (wire_matrix matrix) cellLength = Inr matrix"
proof -
  have n: "getUint32 (wire_matrix matrix) 0 = Inr (length matrix)"
    using getUint32_at [of "[]" "length matrix" "concat (map wire_row matrix)"] assms(2)
    by (simp add: wire_matrix_def)
  have r: "decode_rows (wire_matrix matrix) cellLength (length matrix) 4
             = Inr (matrix, 4 + length (concat (map wire_row matrix)))"
    using decode_rows_wire [OF assms(1) assms(3), of "u32le (length matrix)" "[]"]
    by (simp add: wire_matrix_def)
  show ?thesis
    by (simp add: decodeMatrix_def n r)
qed

text \<open>
  Claim C6. For every matrix whose cells are empty or of exactly \<open>cellLength\<close>
  bytes, \<open>encodeMatrix\<close> returns the wire format (little-endian \<open>u32\<close> row count,
  then per row a little-endian \<open>u32\<close> length and, for each cell, a presence byte that
  is 1 iff the cell is not empty, followed by the cell's bytes when present), and
  \<open>decodeMatrix\<close> of the encoding with \<open>cellLength\<close> returns the matrix, an absent
  cell as the empty byte string. The matrix and its rows have fewer than \<open>2 ^ 32\<close>
  elements, as every JavaScript array has.
\<close>

theorem matrix_wire_roundtrip:
  assumes "cells_of_length cellLength matrix"
    and "length matrix < 2 ^ 32"
    and "list_all (\<lambda>row. length row < 2 ^ 32) matrix"
  shows "encodeMatrix matrix = Inr (wire_matrix matrix)
     \<and> decodeMatrix (wire_matrix matrix) cellLength = Inr matrix
     \<and> (case encodeMatrix matrix of Inl e \<Rightarrow> Inl e | Inr encoded \<Rightarrow> decodeMatrix encoded cellLength)
         = Inr matrix"
proof -
  have enc: "encodeMatrix matrix = Inr (wire_matrix matrix)"
    by (rule encodeMatrix_wire)
  have dec: "decodeMatrix (wire_matrix matrix) cellLength = Inr matrix"
    using assms by (rule decodeMatrix_wire)
  show ?thesis
    using enc dec by simp
qed

text \<open>
  \<open>matrix_wire_roundtrip\<close> at a matrix of two rows, the first of a two-byte cell and
  an absent one, the second empty.
\<close>

theorem matrix_wire_roundtrip_witness:
  "cells_of_length 2 [[[1, 2], []], []]
   \<and> encodeMatrix [[[1, 2], []], []] = Inr [2, 0, 0, 0, 2, 0, 0, 0, 1, 1, 2, 0, 0, 0, 0, 0]
   \<and> decodeMatrix [2, 0, 0, 0, 2, 0, 0, 0, 1, 1, 2, 0, 0, 0, 0, 0] 2 = Inr [[[1, 2], []], []]"
proof -
  have h1: "cells_of_length 2 [[[1, 2], []], []]"
    by (simp add: cells_of_length_def)
  have h2: "length [[[1 :: 8 word, 2], []], []] < 2 ^ 32"
    by simp
  have h3: "list_all (\<lambda>row. length row < 2 ^ 32) [[[1 :: 8 word, 2], []], []]"
    by simp
  have w: "wire_matrix [[[1, 2], []], []] = [2, 0, 0, 0, 2, 0, 0, 0, 1, 1, 2, 0, 0, 0, 0, 0]"
    by (simp add: wire_matrix_def wire_row_def wire_cell_def u32le_def)
  show ?thesis
    using matrix_wire_roundtrip [OF h1 h2 h3] h1 w by simp
qed

subsection \<open>parseSettlementEvent\<close>

lemma digit_char: "d < 10 \<Longrightarrow> is_digit (char_of (48 + d :: nat))"
  by (simp add: is_digit_def)

lemma digit_value_char: "d < 10 \<Longrightarrow> digit_value (char_of (48 + d :: nat)) = Some d"
  by (simp add: digit_value_def)

lemma dec_digits_all_digits: "list_all is_digit (dec_digits n)"
proof (induction n rule: dec_digits.induct)
  case (1 n)
  show ?case
  proof (cases "n < 10")
    case True
    then show ?thesis by (simp add: dec_digits.simps [of n] digit_char)
  next
    case False
    then show ?thesis using "1.IH" by (simp add: dec_digits.simps [of n] digit_char)
  qed
qed

lemma dec_digits_nonempty: "dec_digits n \<noteq> []"
  by (simp add: dec_digits.simps [of n])

lemma parse_digits_snoc:
  "parse_digits radix acc (cs @ [c]) =
     (case parse_digits radix acc cs of
        None \<Rightarrow> None
      | Some a \<Rightarrow> (case digit_value c of None \<Rightarrow> None
                   | Some d \<Rightarrow> if d < radix then Some (a * radix + d) else None))"
  by (induction cs arbitrary: acc) (auto split: option.splits)

lemma parse_dec_digits: "parse_digits 10 0 (dec_digits n) = Some n"
proof (induction n rule: dec_digits.induct)
  case (1 n)
  show ?case
  proof (cases "n < 10")
    case True
    then show ?thesis by (simp add: dec_digits.simps [of n] digit_value_char)
  next
    case False
    then have "parse_digits 10 0 (dec_digits (n div 10)) = Some (n div 10)"
      using "1.IH" by simp
    with False show ?thesis
      by (simp add: dec_digits.simps [of n] parse_digits_snoc digit_value_char)
  qed
qed

lemma parse_radix_dec: "parse_radix 10 (dec_digits n) = Inr (int n)"
  by (simp add: parse_radix_def dec_digits_nonempty parse_dec_digits)

lemma is_digit_not_space: "is_digit c \<Longrightarrow> \<not> is_space c"
  by (auto simp: is_digit_def is_space_def)

lemma trim_no_space:
  assumes "list_all (\<lambda>c. \<not> is_space c) s"
  shows "trim s = s"
proof -
  have a: "dropWhile is_space s = s"
    using assms by (cases s) simp_all
  have "list_all (\<lambda>c. \<not> is_space c) (rev s)"
    using assms by (simp add: list_all_iff)
  then have b: "dropWhile is_space (rev s) = rev s"
    by (cases "rev s") simp_all
  show ?thesis by (simp add: trim_def a b)
qed

lemma toString10_chars:
  "list_all (\<lambda>c. is_digit c \<or> c = CHR ''-'') (toString10 k)"
  using dec_digits_all_digits [of "nat k"] dec_digits_all_digits [of "nat (- k)"]
  by (auto simp: toString10_def list_all_iff)

lemma minus_not_space: "\<not> is_space CHR ''-''"
  by (simp add: is_space_def)

lemma trim_toString10: "trim (toString10 k) = toString10 k"
proof (rule trim_no_space)
  show "list_all (\<lambda>c. \<not> is_space c) (toString10 k)"
    using toString10_chars [of k] is_digit_not_space minus_not_space
    by (auto simp: list_all_iff)
qed

lemma no_prefix:
  assumes "list_all (\<lambda>c. is_digit c \<or> c = CHR ''-'') s" and "\<not> (is_digit x \<or> x = CHR ''-'')"
  shows "take 2 s \<noteq> [y, x]"
proof
  assume "take 2 s = [y, x]"
  then have "x \<in> set (take 2 s)" by simp
  then have "x \<in> set s" by (rule in_set_takeD)
  with assms show False by (auto simp: list_all_iff)
qed

lemma toString10_no_prefix:
  "take 2 (toString10 k) \<noteq> ''0x''" "take 2 (toString10 k) \<noteq> ''0X''"
  "take 2 (toString10 k) \<noteq> ''0o''" "take 2 (toString10 k) \<noteq> ''0O''"
  "take 2 (toString10 k) \<noteq> ''0b''" "take 2 (toString10 k) \<noteq> ''0B''"
  by (rule no_prefix [OF toString10_chars], simp add: is_digit_def)+

lemma hd_dec_digits: "is_digit (hd (dec_digits n))"
  using dec_digits_all_digits [of n] dec_digits_nonempty [of n]
  by (cases "dec_digits n") simp_all

lemma hd_dec_digits_sign: "hd (dec_digits n) \<noteq> CHR ''-''" "hd (dec_digits n) \<noteq> CHR ''+''"
  using hd_dec_digits [of n] by (auto simp: is_digit_def)

lemma BigInt_toString10: "BigInt (toString10 k) = Inr k"
proof (cases "k < 0")
  case True
  then have s: "toString10 k = CHR ''-'' # dec_digits (nat (- k))"
    by (simp add: toString10_def)
  have "BigInt (toString10 k) = map_sum id uminus (parse_radix 10 (dec_digits (nat (- k))))"
    using toString10_no_prefix [of k]
    by (simp add: BigInt_def trim_toString10 Let_def) (simp add: s)
  with True show ?thesis by (simp add: parse_radix_dec)
next
  case False
  then have s: "toString10 k = dec_digits (nat k)"
    by (simp add: toString10_def)
  have "BigInt (toString10 k) = parse_radix 10 (dec_digits (nat k))"
    using toString10_no_prefix [of k]
    by (simp add: BigInt_def trim_toString10 Let_def)
       (simp add: s dec_digits_nonempty hd_dec_digits_sign)
  with False show ?thesis by (simp add: parse_radix_dec)
qed

lemma sdiv_1000: "(n::int) sdiv 1000 = (if 0 \<le> n then n div 1000 else - ((- n) div 1000))"
  by (simp add: signed_divide_int_def sgn_if abs_if)

lemma bigint_div_1000:
  "bigint_div n 1000 = Inr (if 0 \<le> n then n div 1000 else - ((- n) div 1000))"
  by (simp add: bigint_div_def sdiv_1000)

text \<open>
  Claim C7. For a \<open>roundFinalization\<close> record whose \<open>minRelayFeeRate\<close> string is
  the decimal form of the integer \<open>n\<close>, and more generally any string that \<open>BigInt\<close>
  reads as \<open>n\<close>, the parsed \<open>Finalization\<close> event carries \<open>n\<close> divided by 1000
  and truncated towards zero: \<open>n div 1000\<close> for \<open>n \<ge> 0\<close>, and
  \<open>- ((- n) div 1000)\<close> for \<open>n < 0\<close>.
\<close>

theorem parseSettlementEvent_minRelayFeeRate:
  "parseSettlementEvent (data\<lparr>roundFinalization := Some (f\<lparr>fin_minRelayFeeRate := toString10 n\<rparr>)\<rparr>)
     = Inr (Some (FinalizationEvent (fin_id f)
         (FinalizationPayload (fin_roundTx f) (toVtxoTree (fin_vtxoTree f)) (fin_connectors f)
            (if 0 \<le> n then n div 1000 else - ((- n) div 1000)))))
   \<and> (BigInt s = Inr n \<longrightarrow>
        parseSettlementEvent (data\<lparr>roundFinalization := Some (f\<lparr>fin_minRelayFeeRate := s\<rparr>)\<rparr>)
          = Inr (Some (FinalizationEvent (fin_id f)
              (FinalizationPayload (fin_roundTx f) (toVtxoTree (fin_vtxoTree f)) (fin_connectors f)
                 (if 0 \<le> n then n div 1000 else - ((- n) div 1000))))))"
proof -
  have parsed: "parseSettlementEvent (data\<lparr>roundFinalization := Some (f\<lparr>fin_minRelayFeeRate := s\<rparr>)\<rparr>)
          = Inr (Some (FinalizationEvent (fin_id f)
              (FinalizationPayload (fin_roundTx f) (toVtxoTree (fin_vtxoTree f)) (fin_connectors f)
                 (if 0 \<le> n then n div 1000 else - ((- n) div 1000)))))"
    if "BigInt s = Inr n" for s
    using that by (simp add: parseSettlementEvent_def bigint_div_1000)
  show ?thesis
    using parsed [OF BigInt_toString10 [of n]] parsed by blast
qed


text \<open>
  \<open>parseSettlementEvent_minRelayFeeRate\<close> at 2500 sats/kvb, which is 2 sats/vB, and
  at the string \<open>'' -2500 ''\<close>, which \<open>BigInt\<close> reads as \<open>-2500\<close>.
\<close>

theorem parseSettlementEvent_minRelayFeeRate_witness:
  "BigInt '' -2500 '' = Inr (- 2500)
   \<and> toString10 2500 = ''2500''
   \<and> parseSettlementEvent \<lparr> roundFailed = None,
        roundFinalization = Some \<lparr> fin_id = ''r'', fin_roundTx = ''tx'', fin_vtxoTree = [],
          fin_connectors = [], fin_minRelayFeeRate = ''2500'' \<rparr>,
        roundFinalized = None, roundSigning = None, roundSigningNoncesGenerated = None \<rparr>
      = Inr (Some (FinalizationEvent ''r'' (FinalizationPayload ''tx'' [] [] 2)))
   \<and> parseSettlementEvent \<lparr> roundFailed = None,
        roundFinalization = Some \<lparr> fin_id = ''r'', fin_roundTx = ''tx'', fin_vtxoTree = [],
          fin_connectors = [], fin_minRelayFeeRate = '' -2500 '' \<rparr>,
        roundFinalized = None, roundSigning = None, roundSigningNoncesGenerated = None \<rparr>
      = Inr (Some (FinalizationEvent ''r'' (FinalizationPayload ''tx'' [] [] (- 2))))"
proof -
  let ?f = "\<lparr> fin_id = ''r'', fin_roundTx = ''tx'', fin_vtxoTree = [],
          fin_connectors = [], fin_minRelayFeeRate = '''' \<rparr>"
  let ?d = "\<lparr> roundFailed = None, roundFinalization = None,
        roundFinalized = None, roundSigning = None, roundSigningNoncesGenerated = None \<rparr>"
  have h: "BigInt '' -2500 '' = Inr (- 2500)"
    by (simp add: BigInt_def trim_def is_space_def parse_radix_def digit_value_def)
  have t: "toString10 2500 = ''2500''"
    by code_simp
  have e: "toVtxoTree [] = []"
    by (simp add: toVtxoTree_def)
  show ?thesis
    using parseSettlementEvent_minRelayFeeRate [where data = ?d and f = ?f and n = 2500 and s = "''2500''"]
      parseSettlementEvent_minRelayFeeRate [where data = ?d and f = ?f and n = "- 2500" and s = "'' -2500 ''"]
      h t e
    by simp
qed

subsection \<open>VHTLC options\<close>



end
